theory Spec2Isabelle
  imports Main "HOL-Library.AList"
begin

section \<open>JSON values and the JavaScript operations server.js applies to them\<close>

text \<open>
  Every value server.js handles comes out of \<^verbatim>\<open>JSON.parse\<close> or is an object literal
  of such values. An object is the list of its own enumerable properties, each name
  once (the statements that depend on it say so). A parsed object lists them in the order \<^verbatim>\<open>Object.entries\<close> enumerates them;
  an object built by the code lists them in the order of their creation, which is the
  order of enumeration except that JavaScript enumerates integer-like names first.
  Objects built by the code are only ever searched by name and written to a file, so the
  difference shows nowhere. Numbers are opaque payloads of which the code only ever
  tests whether they are zero.
\<close>

datatype json =
    JNull
  | JBool bool
  | JNum int
  | JStr string
  | JArr "json list"
  | JObj "(string \<times> json) list"

type_synonym props = "(string \<times> json) list"

text \<open>\<^verbatim>\<open>!v\<close> is false exactly for the truthy values.\<close>

fun truthy :: "json \<Rightarrow> bool" where
  "truthy JNull = False"
| "truthy (JBool b) = b"
| "truthy (JNum n) = (n \<noteq> 0)"
| "truthy (JStr s) = (s \<noteq> [])"
| "truthy (JArr xs) = True"
| "truthy (JObj ps) = True"

text \<open>\<^verbatim>\<open>typeof v === 'object'\<close>: null, arrays and objects.\<close>

fun typeof_object :: "json \<Rightarrow> bool" where
  "typeof_object JNull = True"
| "typeof_object (JArr xs) = True"
| "typeof_object (JObj ps) = True"
| "typeof_object v = False"

text \<open>Decimal rendering of an array index, the property name of an array element.\<close>

function string_of_nat :: "nat \<Rightarrow> string" where
  "string_of_nat n =
     (if n < 10 then [''0123456789'' ! n]
      else string_of_nat (n div 10) @ [''0123456789'' ! (n mod 10)])"
  by pat_completeness auto
termination
  by (relation "measure (\<lambda>n. n)") auto

declare string_of_nat.simps [simp del]

definition index_entries :: "json list \<Rightarrow> props" where
  "index_entries xs = zip (map string_of_nat [0..<length xs]) xs"

text \<open>
  The own enumerable properties a spread \<^verbatim>\<open>...v\<close> copies, which are also what
  \<^verbatim>\<open>Object.entries(v)\<close> lists: the entries of an object, the indexed elements of an
  array, the indexed characters of a string (its code units; here its bytes), nothing for
  null, booleans and numbers.
\<close>

fun own_props :: "json \<Rightarrow> props" where
  "own_props (JObj ps) = ps"
| "own_props (JArr xs) = index_entries xs"
| "own_props (JStr s) = index_entries (map (\<lambda>c. JStr [c]) s)"
| "own_props v = []"

text \<open>
  Defining properties one after the other on an object under construction: a name that
  is already there keeps its place and takes the new value, a new name goes last.
\<close>

definition define_props :: "props \<Rightarrow> props \<Rightarrow> props" where
  "define_props acc ps = fold (\<lambda>(k, v). AList.update k v) ps acc"

text \<open>The object literal \<^verbatim>\<open>{ ...a, ...b }\<close>, given the properties each spread copies.\<close>

definition spread2 :: "props \<Rightarrow> props \<Rightarrow> props" where
  "spread2 a b = define_props (define_props [] a) b"

text \<open>
  \<^verbatim>\<open>v.players\<close> on a parsed value: the own property of an object, undefined (\<open>None\<close>)
  on arrays and primitives; on null the read throws, which the callers below handle
  before they reach this function.
\<close>

fun get_players :: "json \<Rightarrow> json option" where
  "get_players (JObj ps) = map_of ps ''players''"
| "get_players v = None"

subsection \<open>The object \<^verbatim>\<open>merged.players\<close> while the merge loop runs\<close>

text \<open>
  \<^verbatim>\<open>merged.players\<close> is an ordinary object: a read of a name it does not own goes to its
  prototype, and the assignment \<^verbatim>\<open>merged.players[username] = ...\<close> creates an own
  property unless the name is \<^verbatim>\<open>__proto__\<close>, which \<^verbatim>\<open>Object.prototype\<close> defines with
  a setter that replaces the prototype instead. \<open>proto = None\<close> is the initial prototype,
  \<^verbatim>\<open>Object.prototype\<close>; \<open>Some p\<close> is a plain object with own properties \<open>p\<close> (whose own
  prototype is \<^verbatim>\<open>Object.prototype\<close>).
\<close>

record players_obj =
  own :: props
  proto :: "props option"

datatype js_value =
    Json json
  | Undefined
  | Builtin \<comment> \<open>\<^verbatim>\<open>Object.prototype\<close> or one of its methods: truthy, no enumerable property\<close>

definition objproto_names :: "string list" where
  "objproto_names =
     [''constructor'', ''hasOwnProperty'', ''isPrototypeOf'', ''propertyIsEnumerable'',
      ''toLocaleString'', ''toString'', ''valueOf'', ''__defineGetter__'',
      ''__defineSetter__'', ''__lookupGetter__'', ''__lookupSetter__'']"

definition objproto_get :: "props option \<Rightarrow> string \<Rightarrow> js_value" where
  "objproto_get pr k =
     (if k = ''__proto__'' then (case pr of None \<Rightarrow> Builtin | Some p \<Rightarrow> Json (JObj p))
      else if k \<in> set objproto_names then Builtin
      else Undefined)"

definition js_get :: "players_obj \<Rightarrow> string \<Rightarrow> js_value" where
  "js_get obj k =
     (case map_of (own obj) k of
        Some v \<Rightarrow> Json v
      | None \<Rightarrow>
          (case proto obj of
             None \<Rightarrow> objproto_get None k
           | Some p \<Rightarrow>
               (case map_of p k of
                  Some v \<Rightarrow> Json v
                | None \<Rightarrow> objproto_get (Some p) k)))"

text \<open>The properties \<^verbatim>\<open>...(x || {})\<close> copies, for the result \<open>x\<close> of a property read.\<close>

fun or_empty_props :: "js_value \<Rightarrow> props" where
  "or_empty_props (Json v) = (if truthy v then own_props v else [])"
| "or_empty_props Undefined = []"
| "or_empty_props Builtin = []"

text \<open>\<^verbatim>\<open>obj[k] = { ... }\<close>, the assigned value being a fresh object with properties \<open>r\<close>.\<close>

definition js_set :: "players_obj \<Rightarrow> string \<Rightarrow> props \<Rightarrow> players_obj" where
  "js_set obj k r =
     (if map_of (own obj) k \<noteq> None then obj\<lparr>own := AList.update k (JObj r) (own obj)\<rparr>
      else if (case proto obj of None \<Rightarrow> False | Some p \<Rightarrow> map_of p k \<noteq> None)
        then obj\<lparr>own := AList.update k (JObj r) (own obj)\<rparr>
      else if k = ''__proto__'' then obj\<lparr>proto := Some r\<rparr>
      else obj\<lparr>own := AList.update k (JObj r) (own obj)\<rparr>)"

section \<open>POST /api/import: the merge (server.js lines 150-153)\<close>

text \<open>One iteration of the loop over \<^verbatim>\<open>Object.entries(incoming.players)\<close>.\<close>

definition merge_entry :: "string \<times> json \<Rightarrow> players_obj \<Rightarrow> players_obj" where
  "merge_entry e obj =
     js_set obj (fst e) (spread2 (or_empty_props (js_get obj (fst e))) (own_props (snd e)))"

text \<open>\<^verbatim>\<open>{ ...(current.players || {}) }\<close>.\<close>

definition initial_players :: "json \<Rightarrow> players_obj" where
  "initial_players current =
     \<lparr>own = define_props []
              (case get_players current of
                 None \<Rightarrow> []
               | Some v \<Rightarrow> if truthy v then own_props v else []),
      proto = None\<rparr>"

text \<open>
  What \<^verbatim>\<open>...(merged.players[u] || {})\<close> copies when the read is answered by an own
  property or by nothing: the properties of the own value if it is truthy, none otherwise.
\<close>

definition existing_props :: "props \<Rightarrow> string \<Rightarrow> props" where
  "existing_props ps u =
     (case map_of ps u of None \<Rightarrow> [] | Some v \<Rightarrow> if truthy v then own_props v else [])"

text \<open>
  An entry of the batch is absorbed by the own properties \<open>ps\<close> when merging it again
  changes nothing: its name holds a record that already carries the entry's fields, or
  its name is \<^verbatim>\<open>__proto__\<close> and no own property has that name.
\<close>

definition absorbed :: "string \<times> json \<Rightarrow> props \<Rightarrow> bool" where
  "absorbed e ps =
     (case map_of ps (fst e) of
        None \<Rightarrow> fst e = ''__proto__''
      | Some v \<Rightarrow> (case v of JObj r \<Rightarrow> spread2 r (own_props (snd e)) = r | _ \<Rightarrow> False))"

definition merge_players :: "json \<Rightarrow> json \<Rightarrow> players_obj" where
  "merge_players current incoming_players =
     fold merge_entry (own_props incoming_players) (initial_players current)"

text \<open>
  The object \<^verbatim>\<open>merged\<close> as \<^verbatim>\<open>JSON.stringify\<close> writes it: own properties only, so a
  replaced prototype of \<^verbatim>\<open>merged.players\<close> is not persisted.
\<close>

definition merged_json :: "string \<Rightarrow> players_obj \<Rightarrow> json" where
  "merged_json now obj = JObj [(''players'', JObj (own obj)), (''updatedAt'', JStr now)]"

section \<open>The persisted files\<close>

text \<open>
  A data file either is missing (\<^verbatim>\<open>readFile\<close> throws), holds text that is not JSON
  (\<^verbatim>\<open>JSON.parse\<close> throws) or holds the text of a JSON value, which reads back as that
  value. \<^verbatim>\<open>fsp.writeFile\<close> replaces the whole text; when it fails, what is left in the
  file is up to the file system: the old text if the failure came before the file was
  opened for writing, an empty or cut-off text (never a complete JSON text) if it came
  after the open, which truncates the file.
\<close>

datatype js_error = ENOENT | SyntaxError | TypeError | WriteFailure | ProbeError

datatype data_file = NoFile | Garbage | Stored json

datatype write_outcome = Written | Failed_untouched | Failed_truncated

definition readFile_parse :: "data_file \<Rightarrow> js_error + json" where
  "readFile_parse f =
     (case f of NoFile \<Rightarrow> Inl ENOENT | Garbage \<Rightarrow> Inl SyntaxError | Stored v \<Rightarrow> Inr v)"

definition writeFile ::
  "write_outcome \<Rightarrow> json \<Rightarrow> data_file \<Rightarrow> (js_error + unit) \<times> data_file" where
  "writeFile w v f =
     (case w of
        Written \<Rightarrow> (Inr (), Stored v)
      | Failed_untouched \<Rightarrow> (Inl WriteFailure, f)
      | Failed_truncated \<Rightarrow> (Inl WriteFailure, Garbage))"

section \<open>POST /api/import: the handler (server.js lines 121-160)\<close>

datatype response =
    Imported string nat \<comment> \<open>200: \<^verbatim>\<open>{ ok: true, updatedAt, totalPlayers }\<close>\<close>
  | Bad_request string \<comment> \<open>400: \<^verbatim>\<open>{ error }\<close>\<close>
  | Server_error string js_error \<comment> \<open>500: \<^verbatim>\<open>{ error, details }\<close>\<close>

text \<open>The guard of line 142, disjunct by disjunct.\<close>

definition invalid_schema :: "json \<Rightarrow> bool" where
  "invalid_schema incoming =
     (\<not> truthy incoming \<or> \<not> typeof_object incoming \<or>
      (case get_players incoming of
         None \<Rightarrow> True
       | Some p \<Rightarrow> \<not> truthy p \<or> \<not> typeof_object p))"

text \<open>
  The shape the specification asks of a batch, in its words: an object with a top-level
  \<^verbatim>\<open>players\<close> field that is itself a mapping (from usernames to records).
\<close>

fun spec_is_mapping :: "json \<Rightarrow> bool" where
  "spec_is_mapping (JObj m) = True"
| "spec_is_mapping v = False"

definition spec_players_is_mapping :: "json \<Rightarrow> bool" where
  "spec_players_is_mapping v =
     (case v of
        JObj ps \<Rightarrow> (case map_of ps ''players'' of Some p \<Rightarrow> spec_is_mapping p | None \<Rightarrow> False)
      | _ \<Rightarrow> False)"

text \<open>
  The body of the handler's \<^verbatim>\<open>try\<close> from line 134 on, for the text \<open>content\<close>.
  \<open>parse\<close> is \<^verbatim>\<open>JSON.parse\<close> (\<open>None\<close> when it throws), \<open>now\<close> the value of
  \<^verbatim>\<open>new Date().toISOString()\<close> at line 150, \<open>w\<close> the outcome of the write at line 155,
  \<open>f\<close> the file stats.json. An \<open>Inl\<close> is an exception leaving the \<^verbatim>\<open>try\<close>.
\<close>

definition import_try ::
  "(string \<Rightarrow> json option) \<Rightarrow> string \<Rightarrow> write_outcome \<Rightarrow> string \<Rightarrow> data_file
     \<Rightarrow> (js_error + response) \<times> data_file" where
  "import_try parse now w content f =
     (case parse content of
        None \<Rightarrow> (Inr (Bad_request ''Invalid JSON''), f)
      | Some incoming \<Rightarrow>
          if invalid_schema incoming
          then (Inr (Bad_request ''Invalid schema: expected root { players: { ... } }''), f)
          else
            (case readFile_parse f of
               Inl e \<Rightarrow> (Inl e, f)
             | Inr current \<Rightarrow>
                 if current = JNull then (Inl TypeError, f)
                 else
                   (case get_players incoming of
                      None \<Rightarrow> (Inl TypeError, f)
                    | Some batch \<Rightarrow>
                        (let obj = merge_players current batch in
                         case writeFile w (merged_json now obj) f of
                           (Inl e, f') \<Rightarrow> (Inl e, f')
                         | (Inr u, f') \<Rightarrow> (Inr (Imported now (length (own obj))), f')))))"

text \<open>The handler from line 134 on, with the \<^verbatim>\<open>catch\<close> of line 157.\<close>

definition import_content ::
  "(string \<Rightarrow> json option) \<Rightarrow> string \<Rightarrow> write_outcome \<Rightarrow> string \<Rightarrow> data_file
     \<Rightarrow> response \<times> data_file" where
  "import_content parse now w content f =
     (case import_try parse now w content f of
        (Inl e, f') \<Rightarrow> (Server_error ''Failed to import stats'' e, f')
      | (Inr r, f') \<Rightarrow> (r, f'))"

text \<open>
  Lines 123-132: where the text comes from. \<open>stringify\<close> is \<^verbatim>\<open>JSON.stringify\<close>, applied
  to a body the JSON middleware has already parsed.
\<close>

datatype request = Upload string | Json_body json | Text_body string | No_body

definition api_import ::
  "(string \<Rightarrow> json option) \<Rightarrow> (json \<Rightarrow> string) \<Rightarrow> string \<Rightarrow> write_outcome \<Rightarrow> request
     \<Rightarrow> data_file \<Rightarrow> response \<times> data_file" where
  \<open>api_import parse stringify now w req f =
     (case req of
        Upload text \<Rightarrow> import_content parse now w text f
      | Json_body body \<Rightarrow> import_content parse now w (stringify body) f
      | Text_body text \<Rightarrow> import_content parse now w text f
      | No_body \<Rightarrow>
          (Bad_request
             ''No data provided. Upload a JSON file in field "file" or send JSON body.'', f))\<close>

section \<open>appendPingSample (server.js lines 162-175)\<close>

text \<open>
  Lines 166-170 on the parsed file \<open>data\<close>: \<^verbatim>\<open>data.samples.push(sample)\<close> throws a
  TypeError unless \<open>data\<close> is an object whose \<^verbatim>\<open>samples\<close> is an array;
  \<^verbatim>\<open>slice(-15000)\<close> keeps the last 15000 elements.
\<close>

definition push_sample :: "json \<Rightarrow> json \<Rightarrow> js_error + json" where
  "push_sample sample data =
     (case data of
        JObj ps \<Rightarrow>
          (case map_of ps ''samples'' of
             Some (JArr xs) \<Rightarrow>
               (let ys = xs @ [sample];
                    zs = (if length ys > 15000 then drop (length ys - 15000) ys else ys)
                in Inr (JObj (AList.update ''samples'' (JArr zs) ps)))
           | _ \<Rightarrow> Inl TypeError)
      | _ \<Rightarrow> Inl TypeError)"

datatype log_entry =
    Failed_to_append js_error \<comment> \<open>\<^verbatim>\<open>console.error('Failed to append ping sample:', err)\<close>\<close>
  | Scheduler_not_started \<comment> \<open>\<^verbatim>\<open>console.warn('Scheduler not started:', e)\<close>\<close>
  | Starting_scheduler int \<comment> \<open>\<^verbatim>\<open>console.log(`Starting ping scheduler every ...`)\<close>\<close>

text \<open>The \<^verbatim>\<open>try\<close> block of appendPingSample on the file ping-history.json.\<close>

definition appendPingSample_try ::
  "write_outcome \<Rightarrow> json \<Rightarrow> data_file \<Rightarrow> (js_error + unit) \<times> data_file" where
  "appendPingSample_try w sample f =
     (case readFile_parse f of
        Inl e \<Rightarrow> (Inl e, f)
      | Inr data \<Rightarrow>
          (case push_sample sample data of
             Inl e \<Rightarrow> (Inl e, f)
           | Inr data' \<Rightarrow> writeFile w data' f))"

text \<open>
  The whole function, on the file and the console: the completion it returns to its
  caller (\<open>Inl\<close> would be an exception), the file and the console afterwards.
\<close>

definition appendPingSample ::
  "write_outcome \<Rightarrow> json \<Rightarrow> data_file \<times> log_entry list
     \<Rightarrow> (js_error + unit) \<times> data_file \<times> log_entry list" where
  "appendPingSample w sample st =
     (case appendPingSample_try w sample (fst st) of
        (Inl e, f') \<Rightarrow> (Inr (), f', snd st @ [Failed_to_append e])
      | (Inr u, f') \<Rightarrow> (Inr (), f', snd st))"

text \<open>What ensureDataFiles writes to a missing ping-history.json (line 32).\<close>

definition empty_history :: data_file where
  "empty_history = Stored (JObj [(''samples'', JArr [])])"

text \<open>One append after the other, every write succeeding.\<close>

definition append_all ::
  "json list \<Rightarrow> data_file \<times> log_entry list \<Rightarrow> data_file \<times> log_entry list" where
  "append_all samples st = fold (\<lambda>s st. snd (appendPingSample Written s st)) samples st"

section \<open>The scheduler (server.js lines 177-200)\<close>

record config =
  host :: string
  port :: int
  pingIntervalSec :: "int option" \<comment> \<open>a number; \<open>None\<close> for null or a missing field\<close>

record status_result =
  players_online :: "json option" \<comment> \<open>\<^verbatim>\<open>result?.players?.online\<close>, \<open>None\<close> if undefined\<close>
  players_max :: "json option"

text \<open>\<^verbatim>\<open>x ?? d\<close>.\<close>

fun nullish_or :: "json option \<Rightarrow> json \<Rightarrow> json" where
  "nullish_or None d = d"
| "nullish_or (Some JNull) d = d"
| "nullish_or (Some v) d = v"

text \<open>The sample of lines 186-191 and the one of line 194.\<close>

definition online_sample :: "string \<Rightarrow> status_result \<Rightarrow> json" where
  "online_sample now r =
     JObj [(''at'', JStr now), (''online'', JBool True),
           (''playersOnline'', nullish_or (players_online r) (JNum 0)),
           (''playersMax'', nullish_or (players_max r) (JNum 0))]"

definition offline_sample :: "string \<Rightarrow> json" where
  "offline_sample now = JObj [(''at'', JStr now), (''online'', JBool False)]"

text \<open>
  The timer callback run from start to end with nothing in between: \<open>probe\<close> is what
  \<^verbatim>\<open>await status(...)\<close> gives (\<open>Inl\<close> when it throws), \<open>now\<close> the clock when the sample
  is built. First the \<^verbatim>\<open>try\<close> block, then the callback with its \<^verbatim>\<open>catch\<close>.
\<close>

definition tick_try ::
  "js_error + status_result \<Rightarrow> string \<Rightarrow> write_outcome \<Rightarrow> data_file \<times> log_entry list
     \<Rightarrow> (js_error + unit) \<times> data_file \<times> log_entry list" where
  "tick_try probe now w st =
     (case probe of
        Inl e \<Rightarrow> (Inl e, st)
      | Inr result \<Rightarrow> appendPingSample w (online_sample now result) st)"

definition tick ::
  "js_error + status_result \<Rightarrow> string \<Rightarrow> write_outcome \<Rightarrow> data_file \<times> log_entry list
     \<Rightarrow> (js_error + unit) \<times> data_file \<times> log_entry list" where
  "tick probe now w st =
     (case tick_try probe now w st of
        (Inl e, st') \<Rightarrow> appendPingSample w (offline_sample now) st'
      | (Inr u, st') \<Rightarrow> (Inr u, st'))"

subsection \<open>The event loop: timer firings and the completions of awaited operations\<close>

text \<open>
  \<^verbatim>\<open>setInterval\<close> calls the callback at every firing and ignores the promise it returns.
  A call runs to its first \<^verbatim>\<open>await\<close> and is resumed when the awaited operation
  completes, so a call is in one of these phases: waiting for \<^verbatim>\<open>status\<close>, inside
  appendPingSample waiting for \<^verbatim>\<open>readFile\<close> with the sample to append, waiting for
  \<^verbatim>\<open>writeFile\<close> with the data to write, or finished.
\<close>

datatype phase = Probing | Reading json | Writing json | Done

record sys =
  ping_history :: data_file
  timer :: "int option" \<comment> \<open>the delay in ms of the interval timer, once set\<close>
  ticks :: "phase list" \<comment> \<open>every call of the callback so far, oldest first\<close>
  console :: "log_entry list"

definition boot :: "data_file \<Rightarrow> sys" where
  "boot f = \<lparr>ping_history = f, timer = None, ticks = [], console = []\<rparr>"

text \<open>
  startSchedulerIfConfigured: \<open>cfg_file\<close> is config.json, \<open>None\<close> when reading or
  parsing it throws.
\<close>

definition startSchedulerIfConfigured :: "config option \<Rightarrow> sys \<Rightarrow> sys" where
  "startSchedulerIfConfigured cfg_file s =
     (case cfg_file of
        None \<Rightarrow> s\<lparr>console := console s @ [Scheduler_not_started]\<rparr>
      | Some cfg \<Rightarrow>
          (case pingIntervalSec cfg of
             None \<Rightarrow> s
           | Some n \<Rightarrow>
               if n = 0 \<or> n \<le> 0 then s
               else s\<lparr>timer := Some (n * 1000),
                      console := console s @ [Starting_scheduler n]\<rparr>))"

datatype event =
    Fire \<comment> \<open>the interval timer fires\<close>
  | Probe_done nat "js_error + status_result" string
      \<comment> \<open>the probe of a call completes, at the given clock reading\<close>
  | Read_done nat \<comment> \<open>the \<^verbatim>\<open>readFile\<close> of a call completes\<close>
  | Write_done nat write_outcome \<comment> \<open>the \<^verbatim>\<open>writeFile\<close> of a call completes\<close>

definition tick_sample :: "js_error + status_result \<Rightarrow> string \<Rightarrow> json" where
  "tick_sample probe now =
     (case probe of Inl e \<Rightarrow> offline_sample now | Inr result \<Rightarrow> online_sample now result)"

text \<open>One event; \<open>None\<close> when the event cannot happen in the state.\<close>

definition step :: "event \<Rightarrow> sys \<Rightarrow> sys option" where
  "step e s =
     (case e of
        Fire \<Rightarrow>
          (case timer s of
             None \<Rightarrow> None
           | Some ms \<Rightarrow> Some (s\<lparr>ticks := ticks s @ [Probing]\<rparr>))
      | Probe_done i probe now \<Rightarrow>
          (if i < length (ticks s) \<and> ticks s ! i = Probing
           then Some (s\<lparr>ticks := (ticks s)[i := Reading (tick_sample probe now)]\<rparr>)
           else None)
      | Read_done i \<Rightarrow>
          (if i < length (ticks s)
           then
             (case ticks s ! i of
                Reading sample \<Rightarrow>
                  (case readFile_parse (ping_history s) of
                     Inl err \<Rightarrow>
                       Some (s\<lparr>ticks := (ticks s)[i := Done],
                               console := console s @ [Failed_to_append err]\<rparr>)
                   | Inr data \<Rightarrow>
                       (case push_sample sample data of
                          Inl err \<Rightarrow>
                            Some (s\<lparr>ticks := (ticks s)[i := Done],
                                    console := console s @ [Failed_to_append err]\<rparr>)
                        | Inr data' \<Rightarrow> Some (s\<lparr>ticks := (ticks s)[i := Writing data']\<rparr>)))
              | _ \<Rightarrow> None)
           else None)
      | Write_done i w \<Rightarrow>
          (if i < length (ticks s)
           then
             (case ticks s ! i of
                Writing data' \<Rightarrow>
                  (case writeFile w data' (ping_history s) of
                     (Inl err, f') \<Rightarrow>
                       Some (s\<lparr>ping_history := f', ticks := (ticks s)[i := Done],
                               console := console s @ [Failed_to_append err]\<rparr>)
                   | (Inr u, f') \<Rightarrow>
                       Some (s\<lparr>ping_history := f', ticks := (ticks s)[i := Done]\<rparr>))
              | _ \<Rightarrow> None)
           else None))"

fun run :: "event list \<Rightarrow> sys \<Rightarrow> sys option" where
  "run [] s = Some s"
| "run (e # es) s = (case step e s of None \<Rightarrow> None | Some s' \<Rightarrow> run es s')"

text \<open>The calls of the callback that have started and not finished.\<close>

definition in_flight :: "sys \<Rightarrow> nat" where
  "in_flight s = length (filter (\<lambda>p. p \<noteq> Done) (ticks s))"

text \<open>
  A run in which the timer never fires while a call is in flight: every call finishes
  within the interval.
\<close>

fun fires_when_idle :: "event list \<Rightarrow> sys \<Rightarrow> bool" where
  "fires_when_idle [] s = True"
| "fires_when_idle (e # es) s =
     ((if e = Fire then in_flight s = 0 else True) \<and>
      (case step e s of None \<Rightarrow> True | Some s' \<Rightarrow> fires_when_idle es s'))"

section \<open>The history keeps the most recent 15000 samples\<close>

lemma appendPingSample_Written:
  "appendPingSample Written s (Stored (JObj [(''samples'', JArr xs)]), log) =
     (Inr (),
      Stored (JObj [(''samples'', JArr (drop (length (xs @ [s]) - 15000) (xs @ [s])))]), log)"
  by (simp add: appendPingSample_def appendPingSample_try_def readFile_parse_def
      push_sample_def writeFile_def Let_def)

lemma drop_window:
  assumes "length ys \<le> Suc n"
  shows "drop (length (drop (length ys - n) ys @ ss) - n) (drop (length ys - n) ys @ ss) =
         drop (length (ys @ ss) - n) (ys @ ss)"
proof (cases "length ys \<le> n")
  case True
  then show ?thesis by simp
next
  case False
  with assms have "length ys = Suc n" by simp
  then show ?thesis by (simp add: Suc_diff_le)
qed

lemma append_all_Stored:
  "length xs \<le> 15000 \<Longrightarrow>
   append_all ss (Stored (JObj [(''samples'', JArr xs)]), log) =
     (Stored (JObj [(''samples'', JArr (drop (length (xs @ ss) - 15000) (xs @ ss)))]), log)"
proof (induction ss arbitrary: xs)
  case Nil
  then show ?case by (simp add: append_all_def)
next
  case (Cons s ss)
  let ?ys = "xs @ [s]"
  let ?zs = "drop (length ?ys - 15000) ?ys"
  have len: "length ?zs \<le> 15000" using Cons.prems by simp
  have ys: "length ?ys \<le> Suc 15000" using Cons.prems by simp
  have "append_all (s # ss) (Stored (JObj [(''samples'', JArr xs)]), log) =
        append_all ss (Stored (JObj [(''samples'', JArr ?zs)]), log)"
    unfolding append_all_def by (simp add: appendPingSample_Written)
  also have "\<dots> =
      (Stored (JObj [(''samples'', JArr (drop (length (?zs @ ss) - 15000) (?zs @ ss)))]), log)"
    by (rule Cons.IH [OF len])
  also have "drop (length (?zs @ ss) - 15000) (?zs @ ss) =
      drop (length (?ys @ ss) - 15000) (?ys @ ss)"
    by (rule drop_window [OF ys])
  finally show ?case by simp
qed

text \<open>
  Claim C2. Appending the samples of any list, one call of appendPingSample after the
  other with every write succeeding, to the empty history that ensureDataFiles creates
  leaves in ping-history.json exactly the last 15000 of them in their order (all of them
  when there are at most 15000), that is \<open>min N 15000\<close> samples, and logs nothing. The
  list is arbitrary, so this holds after every append of a longer run as well.
\<close>

theorem append_all_keeps_last_15000:
  "append_all samples (empty_history, log) =
     (Stored (JObj [(''samples'', JArr (drop (length samples - 15000) samples))]), log) \<and>
   length (drop (length samples - 15000) samples) = min (length samples) 15000"
  using append_all_Stored [of "[]" samples log] by (simp add: empty_history_def)

section \<open>Object literals built by spreading\<close>

lemma define_props_Nil [simp]: "define_props acc [] = acc"
  by (simp add: define_props_def)

lemma define_props_Cons [simp]:
  "define_props acc ((k, v) # ps) = define_props (AList.update k v acc) ps"
  by (simp add: define_props_def)

lemma distinct_define_props:
  "distinct (map fst acc) \<Longrightarrow> distinct (map fst (define_props acc ps))"
  by (induction ps arbitrary: acc) (auto simp: distinct_update)

text \<open>Of two definitions of one name the later wins, hence the reversed list.\<close>

lemma map_of_define_props:
  "map_of (define_props acc ps) = map_of acc ++ map_of (rev ps)"
proof (induction ps arbitrary: acc)
  case Nil
  then show ?case by simp
next
  case (Cons p ps)
  obtain k v where p: "p = (k, v)" by (cases p)
  show ?case
    by (rule ext) (simp add: p Cons.IH update_conv' map_add_def split: option.splits)
qed

lemma keys_define_props:
  "set (map fst ps) \<subseteq> set (map fst acc) \<Longrightarrow> map fst (define_props acc ps) = map fst acc"
proof (induction ps arbitrary: acc)
  case Nil
  then show ?case by simp
next
  case (Cons p ps)
  obtain k v where p: "p = (k, v)" by (cases p)
  have keys: "map fst (AList.update k v acc) = map fst acc"
    using Cons.prems by (simp add: p update_keys)
  have "map fst (define_props (AList.update k v acc) ps) = map fst (AList.update k v acc)"
    using Cons.prems by (intro Cons.IH) (simp add: keys p)
  then show ?case by (simp add: p keys)
qed

lemma alist_from_keys:
  assumes "distinct (map fst xs)"
  shows "map (\<lambda>k. (k, the (map_of xs k))) (map fst xs) = xs"
proof -
  have "(fst x, the (map_of xs (fst x))) = x" if "x \<in> set xs" for x
  proof -
    have "map_of xs (fst x) = Some (snd x)"
      using assms that by (intro map_of_is_SomeI) simp_all
    then show ?thesis by simp
  qed
  then show ?thesis by (simp add: map_idI)
qed

lemma alist_eqI:
  assumes "map fst xs = map fst ys" "distinct (map fst xs)" "map_of xs = map_of ys"
  shows "xs = ys"
proof -
  have "distinct (map fst ys)" using assms by simp
  then have "ys = map (\<lambda>k. (k, the (map_of ys k))) (map fst ys)"
    by (rule alist_from_keys [symmetric])
  also have "\<dots> = map (\<lambda>k. (k, the (map_of xs k))) (map fst xs)"
    using assms by simp
  also have "\<dots> = xs" using assms(2) by (rule alist_from_keys)
  finally show ?thesis by simp
qed

lemma define_props_absorb:
  assumes "distinct (map fst acc)"
  shows "define_props (define_props acc ps) ps = define_props acc ps"
proof (rule alist_eqI)
  have "set (map fst ps) \<subseteq> dom (map_of (define_props acc ps))"
    by (auto simp: map_of_define_props dom_map_of_conv_image_fst)
  then have sub: "set (map fst ps) \<subseteq> set (map fst (define_props acc ps))"
    by (simp add: dom_map_of_conv_image_fst)
  show "map fst (define_props (define_props acc ps) ps) = map fst (define_props acc ps)"
    by (rule keys_define_props [OF sub])
  then show "distinct (map fst (define_props (define_props acc ps) ps))"
    using assms by (simp add: distinct_define_props)
  show "map_of (define_props (define_props acc ps) ps) = map_of (define_props acc ps)"
    by (rule ext) (simp add: map_of_define_props map_add_def split: option.splits)
qed

lemma update_fresh: "k \<notin> fst ` set acc \<Longrightarrow> AList.update k v acc = acc @ [(k, v)]"
  by (induction acc) auto

lemma define_props_fresh:
  "distinct (map fst ps) \<Longrightarrow> fst ` set ps \<inter> fst ` set acc = {} \<Longrightarrow>
   define_props acc ps = acc @ ps"
proof (induction ps arbitrary: acc)
  case Nil
  then show ?case by simp
next
  case (Cons p ps)
  obtain k v where p: "p = (k, v)" by (cases p)
  have fresh: "k \<notin> fst ` set acc" using Cons.prems p by auto
  have "define_props (acc @ [(k, v)]) ps = (acc @ [(k, v)]) @ ps"
    using Cons.prems p by (intro Cons.IH) auto
  then show ?case by (simp add: p update_fresh [OF fresh])
qed

lemma define_props_distinct_id: "distinct (map fst ps) \<Longrightarrow> define_props [] ps = ps"
  using define_props_fresh [of ps "[]"] by simp

lemma distinct_spread2: "distinct (map fst (spread2 a b))"
  by (simp add: spread2_def distinct_define_props)

lemma spread2_absorb: "spread2 (spread2 a b) b = spread2 a b"
proof -
  have d: "distinct (map fst (define_props [] a))" by (simp add: distinct_define_props)
  have "define_props [] (spread2 a b) = spread2 a b"
    by (rule define_props_distinct_id [OF distinct_spread2])
  then show ?thesis
    by (simp add: spread2_def define_props_absorb [OF d])
qed

text \<open>
  Field-level last-write-wins: a field of \<^verbatim>\<open>{ ...a, ...b }\<close> has the value \<open>b\<close> gives it
  if \<open>b\<close> has the field, and the value \<open>a\<close> gives it otherwise. Values are copied whole:
  a list-valued field of \<open>b\<close> replaces the one of \<open>a\<close>.
\<close>

lemma map_of_spread2:
  "map_of (spread2 a b) fld =
     (case map_of (rev b) fld of Some v \<Rightarrow> Some v | None \<Rightarrow> map_of (rev a) fld)"
  by (simp add: spread2_def map_of_define_props map_add_def)

lemma spread2_example:
  "spread2 [(''kills'', JNum 5), (''deaths'', JNum 2)] [(''kills'', JNum 7)] =
     [(''kills'', JNum 7), (''deaths'', JNum 2)]"
  by (simp add: spread2_def)

section \<open>The merge loop\<close>

lemma or_empty_objproto_get: "k \<noteq> ''__proto__'' \<Longrightarrow> or_empty_props (objproto_get pr k) = []"
  by (simp add: objproto_get_def)

lemma merge_entry_plain:
  assumes "proto obj = None" "fst e \<noteq> ''__proto__''"
  shows "merge_entry e obj =
     obj\<lparr>own := AList.update (fst e)
        (JObj (spread2 (existing_props (own obj) (fst e)) (own_props (snd e)))) (own obj)\<rparr>"
  using assms
  by (auto simp: merge_entry_def js_set_def js_get_def existing_props_def or_empty_objproto_get
      split: option.splits)

lemma own_merge_entry_other:
  "u \<noteq> fst e \<Longrightarrow> map_of (own (merge_entry e obj)) u = map_of (own obj) u"
  by (simp add: merge_entry_def js_set_def update_conv' split: option.splits)

lemma proto_merge_entry_other: "fst e \<noteq> ''__proto__'' \<Longrightarrow> proto (merge_entry e obj) = proto obj"
  by (simp add: merge_entry_def js_set_def)

lemma distinct_own_merge_entry:
  "distinct (map fst (own obj)) \<Longrightarrow> distinct (map fst (own (merge_entry e obj)))"
  by (simp add: merge_entry_def js_set_def distinct_update split: option.splits)

lemma own_fold_merge_other:
  "u \<notin> fst ` set es \<Longrightarrow> map_of (own (fold merge_entry es obj)) u = map_of (own obj) u"
  by (induction es arbitrary: obj) (simp_all add: own_merge_entry_other)

lemma distinct_own_fold_merge:
  "distinct (map fst (own obj)) \<Longrightarrow> distinct (map fst (own (fold merge_entry es obj)))"
  by (induction es arbitrary: obj) (simp_all add: distinct_own_merge_entry)

lemma distinct_initial_players: "distinct (map fst (own (initial_players current)))"
  by (simp add: initial_players_def distinct_define_props)

lemma proto_initial_players: "proto (initial_players current) = None"
  by (simp add: initial_players_def)

lemma distinct_own_merge_players: "distinct (map fst (own (merge_players current batch)))"
  by (simp add: merge_players_def distinct_own_fold_merge distinct_initial_players)

text \<open>
  The merge of a batch that does not use the name \<^verbatim>\<open>__proto__\<close>: every username of the
  batch ends with its existing record overwritten field by field, every other username
  keeps its record.
\<close>

lemma fold_merge_plain:
  assumes "distinct (map fst es)" "''__proto__'' \<notin> fst ` set es" "proto obj = None"
  shows "proto (fold merge_entry es obj) = None \<and>
         map_of (own (fold merge_entry es obj)) u =
           (case map_of es u of
              None \<Rightarrow> map_of (own obj) u
            | Some s \<Rightarrow> Some (JObj (spread2 (existing_props (own obj) u) (own_props s))))"
  using assms
proof (induction es arbitrary: obj)
  case Nil
  then show ?case by simp
next
  case (Cons e es)
  define k s where "k = fst e" and "s = snd e"
  let ?obj = "merge_entry e obj"
  have k: "k \<noteq> ''__proto__''" "k \<notin> fst ` set es" using Cons.prems by (auto simp: k_def)
  have plain: "?obj = obj\<lparr>own := AList.update k
        (JObj (spread2 (existing_props (own obj) k) (own_props s))) (own obj)\<rparr>"
    using merge_entry_plain [of obj e] Cons.prems k by (simp add: k_def s_def)
  have pr: "proto ?obj = None" using Cons.prems by (simp add: plain)
  have mo: "map_of (own ?obj) =
      (map_of (own obj))(k \<mapsto> JObj (spread2 (existing_props (own obj) k) (own_props s)))"
    by (simp add: plain update_conv')
  have IH: "proto (fold merge_entry es ?obj) = None \<and>
         map_of (own (fold merge_entry es ?obj)) u =
           (case map_of es u of
              None \<Rightarrow> map_of (own ?obj) u
            | Some s \<Rightarrow> Some (JObj (spread2 (existing_props (own ?obj) u) (own_props s))))"
    using Cons.prems pr by (intro Cons.IH) auto
  have fold_eq: "fold merge_entry (e # es) obj = fold merge_entry es ?obj" by simp
  show ?case
  proof (cases "u = k")
    case True
    then have none: "map_of es u = None" using k by (simp add: map_of_eq_None_iff)
    have "map_of (e # es) u = Some s" using True by (simp add: k_def s_def)
    then show ?thesis using IH none True unfolding fold_eq by (simp add: mo)
  next
    case False
    then have ex: "existing_props (own ?obj) u = existing_props (own obj) u"
      by (simp add: existing_props_def mo)
    have mou: "map_of (own ?obj) u = map_of (own obj) u" using False by (simp add: mo)
    have "map_of (e # es) u = map_of es u" using False by (simp add: k_def)
    then show ?thesis using IH unfolding fold_eq ex mou by simp
  qed
qed

lemma merge_players_lookup:
  assumes "distinct (map fst (own_props batch))" "''__proto__'' \<notin> fst ` set (own_props batch)"
  shows "map_of (own (merge_players current batch)) u =
           (case map_of (own_props batch) u of
              None \<Rightarrow> map_of (own (initial_players current)) u
            | Some s \<Rightarrow>
                Some (JObj (spread2 (existing_props (own (initial_players current)) u)
                  (own_props s))))"
  using fold_merge_plain [OF assms proto_initial_players, of current u]
  by (simp add: merge_players_def)

text \<open>
  Claim C1 (every username of a batch ends with its existing record overwritten field by
  field, every other username keeps its record) fails for a player named
  \<^verbatim>\<open>__proto__\<close>, a name Minecraft allows. Importing
  \<^verbatim>\<open>{"players": {"__proto__": {"kills": 1}}}\<close> into an aggregate without players
  answers 200 with \<^verbatim>\<open>totalPlayers: 0\<close> and persists an aggregate that still has no
  players: the assignment of line 152 replaced the prototype of \<^verbatim>\<open>merged.players\<close>
  and created no property. For batches without that name the claim holds, see
  \<open>merge_players_lookup\<close> and \<open>map_of_spread2\<close>.
\<close>

theorem import_drops_proto_username:
  \<open>import_content
     (\<lambda>text. Some (JObj [(''players'', JObj [(''__proto__'', JObj [(''kills'', JNum 1)])])]))
     ''t1'' Written ''{"players": {"__proto__": {"kills": 1}}}''
     (Stored (JObj [(''players'', JObj []), (''updatedAt'', JStr ''t0'')])) =
     (Imported ''t1'' 0, Stored (JObj [(''players'', JObj []), (''updatedAt'', JStr ''t1'')]))\<close>
  by (simp add: import_content_def import_try_def invalid_schema_def
      readFile_parse_def writeFile_def merge_players_def initial_players_def merged_json_def
      merge_entry_def js_get_def js_set_def objproto_get_def spread2_def)

section \<open>Merging the same batch twice\<close>

lemma absorbed_merge_entry: "absorbed e (own (merge_entry e obj))"
  by (auto simp: absorbed_def merge_entry_def js_set_def update_conv' spread2_absorb
      split: option.splits)

lemma absorbed_cong: "map_of ps (fst e) = map_of qs (fst e) \<Longrightarrow> absorbed e ps = absorbed e qs"
  by (simp add: absorbed_def)

lemma absorbed_fold_merge:
  "distinct (map fst es) \<Longrightarrow> e \<in> set es \<Longrightarrow> absorbed e (own (fold merge_entry es obj))"
proof (induction es arbitrary: obj)
  case Nil
  then show ?case by simp
next
  case (Cons x es)
  show ?case
  proof (cases "e = x")
    case True
    then have "fst e \<notin> fst ` set es" using Cons.prems by auto
    then have "map_of (own (fold merge_entry es (merge_entry e obj))) (fst e) =
        map_of (own (merge_entry e obj)) (fst e)"
      by (rule own_fold_merge_other)
    then have "absorbed e (own (fold merge_entry es (merge_entry e obj))) =
        absorbed e (own (merge_entry e obj))"
      by (rule absorbed_cong)
    then show ?thesis using True by (simp add: absorbed_merge_entry)
  next
    case False
    then show ?thesis using Cons by simp
  qed
qed

lemma merge_entry_absorbed_noop:
  assumes "absorbed e (own obj)" "fst e = ''__proto__'' \<longrightarrow> proto obj = None"
  shows "own (merge_entry e obj) = own obj"
proof (cases "map_of (own obj) (fst e)")
  case None
  then show ?thesis using assms
    by (simp add: absorbed_def merge_entry_def js_set_def)
next
  case (Some v)
  then obtain r where v: "v = JObj r" and r: "spread2 r (own_props (snd e)) = r"
    using assms(1) by (auto simp: absorbed_def split: json.splits)
  have "AList.update (fst e) (JObj r) (own obj) = own obj"
    using Some v by (intro update_triv) simp
  then show ?thesis using Some v r
    by (simp add: merge_entry_def js_set_def js_get_def)
qed

lemma fold_merge_absorbed_noop:
  assumes "distinct (map fst es)" "\<forall>e\<in>set es. absorbed e (own obj)"
    "proto obj = None \<or> ''__proto__'' \<notin> fst ` set es"
  shows "own (fold merge_entry es obj) = own obj"
  using assms
proof (induction es arbitrary: obj)
  case Nil
  then show ?case by simp
next
  case (Cons e es)
  have noop: "own (merge_entry e obj) = own obj"
    using Cons.prems by (intro merge_entry_absorbed_noop) auto
  have pr: "proto (merge_entry e obj) = None \<or> ''__proto__'' \<notin> fst ` set es"
  proof (cases "fst e = ''__proto__''")
    case True
    then show ?thesis using Cons.prems(1) by auto
  next
    case False
    then show ?thesis using Cons.prems(3) by (auto simp: proto_merge_entry_other)
  qed
  have "own (fold merge_entry es (merge_entry e obj)) = own (merge_entry e obj)"
    using Cons.prems pr by (intro Cons.IH) (auto simp: noop)
  then show ?case by (simp add: noop)
qed

lemma initial_players_merged_json:
  "initial_players (merged_json now (merge_players a b)) =
     \<lparr>own = own (merge_players a b), proto = None\<rparr>"
  by (simp add: initial_players_def merged_json_def define_props_distinct_id
      distinct_own_merge_players)

lemma merge_players_again:
  assumes "distinct (map fst (own_props b))"
  shows "own (merge_players (merged_json now (merge_players a b)) b) = own (merge_players a b)"
proof -
  let ?es = "own_props b"
  let ?o1 = "merge_players a b"
  have abs: "\<forall>e\<in>set ?es. absorbed e (own ?o1)"
    using assms by (auto simp: merge_players_def intro: absorbed_fold_merge)
  have "own (fold merge_entry ?es \<lparr>own = own ?o1, proto = None\<rparr>) =
      own \<lparr>own = own ?o1, proto = None\<rparr>"
    using assms abs by (intro fold_merge_absorbed_noop) simp_all
  then show ?thesis
    by (simp add: merge_players_def [of "merged_json now ?o1"] initial_players_merged_json)
qed

text \<open>
  Claim C7. For every persisted aggregate \<open>a\<close> and every batch \<open>b\<close> (whose usernames are
  listed once each, as in every object \<^verbatim>\<open>JSON.parse\<close> returns), merging \<open>b\<close> into the
  aggregate that the merge of \<open>b\<close> into \<open>a\<close> persisted gives the same players as that
  first merge: the two persisted aggregates differ in \<^verbatim>\<open>updatedAt\<close> at most.
\<close>

theorem merge_twice_same_players:
  assumes "distinct (map fst (own_props b))"
  shows "own (merge_players (merged_json t1 (merge_players a b)) b) = own (merge_players a b) \<and>
         merged_json t2 (merge_players (merged_json t1 (merge_players a b)) b) =
           merged_json t2 (merge_players a b)"
  using merge_players_again [OF assms, of t1 a] by (simp add: merged_json_def)

text \<open>Witness of C7: a batch that overwrites one field of alice and adds bob.\<close>

theorem merge_twice_same_players_witness:
  "distinct (map fst (own_props
     (JObj [(''alice'', JObj [(''kills'', JNum 7)]),
            (''bob'', JObj [(''sessions'', JArr [JNum 1, JNum 2])])]))) \<and>
   own (merge_players
     (merged_json ''t1''
        (merge_players
           (JObj [(''players'', JObj [(''alice'', JObj [(''kills'', JNum 5), (''deaths'', JNum 2)])]),
                  (''updatedAt'', JStr ''t0'')])
           (JObj [(''alice'', JObj [(''kills'', JNum 7)]),
                  (''bob'', JObj [(''sessions'', JArr [JNum 1, JNum 2])])])))
     (JObj [(''alice'', JObj [(''kills'', JNum 7)]),
            (''bob'', JObj [(''sessions'', JArr [JNum 1, JNum 2])])])) =
     [(''alice'', JObj [(''kills'', JNum 7), (''deaths'', JNum 2)]),
      (''bob'', JObj [(''sessions'', JArr [JNum 1, JNum 2])])]"
proof -
  have h: "distinct (map fst (own_props
     (JObj [(''alice'', JObj [(''kills'', JNum 7)]),
            (''bob'', JObj [(''sessions'', JArr [JNum 1, JNum 2])])])))"
    by simp
  have first: "own (merge_players
       (JObj [(''players'', JObj [(''alice'', JObj [(''kills'', JNum 5), (''deaths'', JNum 2)])]),
              (''updatedAt'', JStr ''t0'')])
       (JObj [(''alice'', JObj [(''kills'', JNum 7)]),
              (''bob'', JObj [(''sessions'', JArr [JNum 1, JNum 2])])])) =
     [(''alice'', JObj [(''kills'', JNum 7), (''deaths'', JNum 2)]),
      (''bob'', JObj [(''sessions'', JArr [JNum 1, JNum 2])])]"
    by (simp add: merge_players_def initial_players_def merge_entry_def js_get_def js_set_def
        objproto_get_def objproto_names_def spread2_def)
  show ?thesis
    using h merge_twice_same_players [OF h, of "''t1''"
        "JObj [(''players'', JObj [(''alice'', JObj [(''kills'', JNum 5), (''deaths'', JNum 2)])]),
               (''updatedAt'', JStr ''t0'')]" "''t2''"]
    by (simp only: first simp_thms)
qed

section \<open>The answers of the import\<close>

lemma import_content_Imported:
  assumes "import_content parse now w content f = (Imported t n, f')"
  shows "\<exists>incoming current batch.
           parse content = Some incoming \<and> \<not> invalid_schema incoming \<and>
           readFile_parse f = Inr current \<and> get_players incoming = Some batch \<and>
           t = now \<and> n = length (own (merge_players current batch)) \<and>
           f' = Stored (merged_json now (merge_players current batch))"
  using assms
  by (auto simp: import_content_def import_try_def writeFile_def Let_def
      split: option.splits if_splits sum.splits prod.splits write_outcome.splits)

lemma merged_json_not_null: "merged_json now obj \<noteq> JNull"
  by (simp add: merged_json_def)

text \<open>
  The same at the handler: an import that is answered 200, sent again with nothing in
  between, is answered 200 with the same count and persists the same players.
\<close>

lemma import_twice:
  assumes "import_content parse t1 Written content f = (Imported t n, f1)"
    and "parse content = Some incoming" "get_players incoming = Some b"
    and "distinct (map fst (own_props b))"
  shows "\<exists>ps. f1 = Stored (JObj [(''players'', JObj ps), (''updatedAt'', JStr t1)]) \<and>
           import_content parse t2 Written content f1 =
             (Imported t2 n, Stored (JObj [(''players'', JObj ps), (''updatedAt'', JStr t2)]))"
proof -
  from import_content_Imported [OF assms(1)] assms(2,3) obtain current where
    valid: "\<not> invalid_schema incoming" and
    n: "n = length (own (merge_players current b))" and
    f1: "f1 = Stored (merged_json t1 (merge_players current b))"
    by auto
  have again: "own (merge_players (merged_json t1 (merge_players current b)) b) =
      own (merge_players current b)"
    by (rule merge_players_again [OF assms(4)])
  then have again_json:
    "merged_json t2 (merge_players (merged_json t1 (merge_players current b)) b) =
      merged_json t2 (merge_players current b)"
    by (simp add: merged_json_def)
  have "import_content parse t2 Written content f1 =
      (Imported t2 n, Stored (merged_json t2 (merge_players current b)))"
    using assms(2,3) valid
    by (simp add: import_content_def import_try_def f1 readFile_parse_def writeFile_def n again
        again_json merged_json_not_null Let_def)
  then show ?thesis by (simp add: f1 merged_json_def)
qed

text \<open>
  Claim C9. Whenever the import answers 200, the aggregate it has persisted is
  \<^verbatim>\<open>{ players, updatedAt }\<close> with the \<^verbatim>\<open>updatedAt\<close> of the answer, which is the clock
  reading \<open>now\<close> taken for this merge (line 150), and the count in the answer
  (\<^verbatim>\<open>totalPlayers\<close>, the specification's updatedPlayerCount) is the number of distinct
  usernames of the persisted aggregate, whether or not the batch named them.
\<close>

theorem import_success_summary:
  assumes "import_content parse now w content f = (Imported t n, f')"
  shows "\<exists>ps. f' = Stored (JObj [(''players'', JObj ps), (''updatedAt'', JStr t)]) \<and>
              t = now \<and> distinct (map fst ps) \<and> n = length ps \<and> n = card (fst ` set ps)"
proof -
  from import_content_Imported [OF assms] obtain current batch where
    t: "t = now" and n: "n = length (own (merge_players current batch))" and
    f': "f' = Stored (merged_json now (merge_players current batch))"
    by blast
  let ?ps = "own (merge_players current batch)"
  have d: "distinct (map fst ?ps)" by (rule distinct_own_merge_players)
  then have "card (fst ` set ?ps) = length ?ps"
    using distinct_card [of "map fst ?ps"] by simp
  then show ?thesis using t n f' d by (auto simp: merged_json_def)
qed

text \<open>
  Witness of C9: a batch naming alice only, merged into an aggregate of alice and bob,
  is answered with the count 2.
\<close>

theorem import_success_summary_witness:
  \<open>import_content
     (\<lambda>text. if text = ''{"players":{"alice":{"kills":7}}}''
        then Some (JObj [(''players'', JObj [(''alice'', JObj [(''kills'', JNum 7)])])])
        else None)
     ''t1'' Written ''{"players":{"alice":{"kills":7}}}''
     (Stored (JObj [(''players'',
        JObj [(''alice'', JObj [(''kills'', JNum 5), (''deaths'', JNum 2)]),
              (''bob'', JObj [(''kills'', JNum 1)])]),
        (''updatedAt'', JStr ''t0'')])) =
     (Imported ''t1'' 2,
      Stored (JObj [(''players'',
        JObj [(''alice'', JObj [(''kills'', JNum 7), (''deaths'', JNum 2)]),
              (''bob'', JObj [(''kills'', JNum 1)])]),
        (''updatedAt'', JStr ''t1'')])) \<and>
   (\<exists>ps. Stored (JObj [(''players'',
        JObj [(''alice'', JObj [(''kills'', JNum 7), (''deaths'', JNum 2)]),
              (''bob'', JObj [(''kills'', JNum 1)])]),
        (''updatedAt'', JStr ''t1'')]) =
       Stored (JObj [(''players'', JObj ps), (''updatedAt'', JStr ''t1'')]) \<and>
      (2::nat) = card (fst ` set ps))\<close>
proof -
  have h: \<open>import_content
     (\<lambda>text. if text = ''{"players":{"alice":{"kills":7}}}''
        then Some (JObj [(''players'', JObj [(''alice'', JObj [(''kills'', JNum 7)])])])
        else None)
     ''t1'' Written ''{"players":{"alice":{"kills":7}}}''
     (Stored (JObj [(''players'',
        JObj [(''alice'', JObj [(''kills'', JNum 5), (''deaths'', JNum 2)]),
              (''bob'', JObj [(''kills'', JNum 1)])]),
        (''updatedAt'', JStr ''t0'')])) =
     (Imported ''t1'' 2,
      Stored (JObj [(''players'',
        JObj [(''alice'', JObj [(''kills'', JNum 7), (''deaths'', JNum 2)]),
              (''bob'', JObj [(''kills'', JNum 1)])]),
        (''updatedAt'', JStr ''t1'')]))\<close>
    by (simp add: import_content_def import_try_def invalid_schema_def readFile_parse_def
        writeFile_def merge_players_def initial_players_def merge_entry_def js_get_def
        js_set_def spread2_def merged_json_def)
  from import_success_summary [OF h] show ?thesis using h by auto
qed

text \<open>
  The guard of line 142 lets through exactly the objects whose \<^verbatim>\<open>players\<close> is an object
  or an array.
\<close>

lemma invalid_schema_iff:
  "invalid_schema v \<longleftrightarrow>
     \<not> (\<exists>ps p. v = JObj ps \<and> map_of ps ''players'' = Some p \<and>
            ((\<exists>m. p = JObj m) \<or> (\<exists>xs. p = JArr xs)))"
proof (cases v)
  case (JObj ps)
  show ?thesis
  proof (cases "map_of ps ''players''")
    case None
    then show ?thesis using JObj by (simp add: invalid_schema_def)
  next
    case (Some p)
    then show ?thesis using JObj by (cases p) (simp_all add: invalid_schema_def)
  qed
qed (simp_all add: invalid_schema_def)

text \<open>
  Claim C5 (a payload that parses but is not an object with a \<^verbatim>\<open>players\<close> mapping
  fails with the schema error and leaves the aggregate unchanged) is what the comment of
  line 141 and the error text of line 143 promise, and the guard of line 142 misses it
  for arrays, whose \<^verbatim>\<open>typeof\<close> is \<^verbatim>\<open>'object'\<close>: the payload \<^verbatim>\<open>{"players": []}\<close>,
  whose \<^verbatim>\<open>players\<close> is no mapping, is answered 200 and the persisted aggregate is
  rewritten with a new \<^verbatim>\<open>updatedAt\<close>.
\<close>

theorem array_players_not_rejected:
  \<open>\<not> spec_players_is_mapping (JObj [(''players'', JArr [])]) \<and>
   import_content (\<lambda>text. Some (JObj [(''players'', JArr [])])) ''t1'' Written
     ''{"players": []}'' (Stored (JObj [(''players'', JObj []), (''updatedAt'', JStr ''t0'')])) =
     (Imported ''t1'' 0, Stored (JObj [(''players'', JObj []), (''updatedAt'', JStr ''t1'')]))\<close>
  by (simp add: spec_players_is_mapping_def import_content_def import_try_def invalid_schema_def
      readFile_parse_def writeFile_def merge_players_def initial_players_def merged_json_def
      index_entries_def)

text \<open>
  The rejections the handler does make. If \<^verbatim>\<open>JSON.parse\<close> throws, the answer is 400
  \<^verbatim>\<open>Invalid JSON\<close> and the schema is never looked at; if the text parses to a value
  that the guard of line 142 refuses, the answer is 400
  \<^verbatim>\<open>Invalid schema: expected root { players: { ... } }\<close>; in both cases stats.json is
  left as it was, whatever a write would have done. The guard refuses everything but
  the objects whose \<^verbatim>\<open>players\<close> is an object or an array.
\<close>

lemma import_rejects:
  "(parse content = None \<longrightarrow>
      import_content parse now w content f = (Bad_request ''Invalid JSON'', f)) \<and>
   (parse content = Some v \<and> invalid_schema v \<longrightarrow>
      import_content parse now w content f =
        (Bad_request ''Invalid schema: expected root { players: { ... } }'', f)) \<and>
   (invalid_schema v \<longleftrightarrow>
      \<not> (\<exists>ps p. v = JObj ps \<and> map_of ps ''players'' = Some p \<and>
             ((\<exists>m. p = JObj m) \<or> (\<exists>xs. p = JArr xs))))"
  using invalid_schema_iff [of v]
  by (simp add: import_content_def import_try_def)

text \<open>
  Two payloads that are rejected: text that does not parse, and the specification's
  example \<^verbatim>\<open>{"notplayers": {}}\<close>.
\<close>

lemma import_rejects_examples:
  \<open>import_content (\<lambda>text. None) ''t1'' Written ''not json''
     (Stored (JObj [(''players'', JObj [])])) =
     (Bad_request ''Invalid JSON'', Stored (JObj [(''players'', JObj [])])) \<and>
   invalid_schema (JObj [(''notplayers'', JObj [])]) \<and>
   import_content (\<lambda>text. Some (JObj [(''notplayers'', JObj [])])) ''t1'' Written
     ''{"notplayers": {}}'' (Stored (JObj [(''players'', JObj [])])) =
     (Bad_request ''Invalid schema: expected root { players: { ... } }'',
      Stored (JObj [(''players'', JObj [])]))\<close>
proof -
  have inv: "invalid_schema (JObj [(''notplayers'', JObj [])])"
    by (simp add: invalid_schema_def)
  show ?thesis
    using inv
      import_rejects [of "\<lambda>text. None" "''not json''" "''t1''" Written
        "Stored (JObj [(''players'', JObj [])])" JNull]
      import_rejects [of "\<lambda>text. Some (JObj [(''notplayers'', JObj [])])"
        \<open>''{"notplayers": {}}''\<close> "''t1''" Written "Stored (JObj [(''players'', JObj [])])"
        "JObj [(''notplayers'', JObj [])]"]
    by simp
qed

lemma index_entries_2: "index_entries [r0, r1] = [(''0'', r0), (''1'', r1)]"
  by (simp add: index_entries_def upt_rec [of 0] upt_rec [of 1] string_of_nat.simps [of 0]
      string_of_nat.simps [of "Suc 0"] numeral_2_eq_2)

text \<open>
  Claim C10. The validation lets through every parsed payload whose \<^verbatim>\<open>players\<close> is a
  non-null value of type object, arrays included. The payload
  \<^verbatim>\<open>{ players: [r0, r1] }\<close> is merged with the indices \<^verbatim>\<open>"0"\<close> and \<^verbatim>\<open>"1"\<close> as
  usernames: in the persisted aggregate each of the two maps to its existing record
  overwritten with the properties of \<open>r0\<close> and of \<open>r1\<close>, and every other username keeps
  its record.
\<close>

theorem array_players_accepted:
  "(get_players incoming = Some p \<and> truthy p \<and> typeof_object p \<longrightarrow>
      \<not> invalid_schema incoming) \<and>
   \<not> invalid_schema (JObj [(''players'', JArr xs)]) \<and>
   own_props (JArr [r0, r1]) = [(''0'', r0), (''1'', r1)] \<and>
   (parse content = Some (JObj [(''players'', JArr [r0, r1])]) \<and> a \<noteq> JNull \<longrightarrow>
      (\<exists>ps. import_content parse now Written content (Stored a) =
              (Imported now (length ps),
               Stored (JObj [(''players'', JObj ps), (''updatedAt'', JStr now)])) \<and>
            map_of ps ''0'' =
              Some (JObj (spread2 (existing_props (own (initial_players a)) ''0'')
                (own_props r0))) \<and>
            map_of ps ''1'' =
              Some (JObj (spread2 (existing_props (own (initial_players a)) ''1'')
                (own_props r1))) \<and>
            (\<forall>u. u \<noteq> ''0'' \<and> u \<noteq> ''1'' \<longrightarrow>
               map_of ps u = map_of (own (initial_players a)) u)))"
proof -
  have valid: "get_players incoming = Some p \<and> truthy p \<and> typeof_object p \<longrightarrow>
      \<not> invalid_schema incoming"
    by (cases incoming) (auto simp: invalid_schema_def)
  have arr: "\<not> invalid_schema (JObj [(''players'', JArr xs)])"
    by (simp add: invalid_schema_def)
  let ?es = "[(''0'', r0), (''1'', r1)]"
  let ?obj = "fold merge_entry ?es (initial_players a)"
  have look: "map_of (own ?obj) u =
      (case map_of ?es u of
         None \<Rightarrow> map_of (own (initial_players a)) u
       | Some s \<Rightarrow>
           Some (JObj (spread2 (existing_props (own (initial_players a)) u) (own_props s))))"
    for u
    using fold_merge_plain [of ?es "initial_players a" u]
    by (simp add: proto_initial_players)
  have mp: "merge_players a (JArr [r0, r1]) = ?obj"
    by (simp add: merge_players_def index_entries_2)
  have imp: "parse content = Some (JObj [(''players'', JArr [r0, r1])]) \<and> a \<noteq> JNull \<longrightarrow>
      import_content parse now Written content (Stored a) =
        (Imported now (length (own ?obj)),
         Stored (JObj [(''players'', JObj (own ?obj)), (''updatedAt'', JStr now)]))"
    by (simp add: import_content_def import_try_def invalid_schema_def readFile_parse_def
        writeFile_def mp merged_json_def Let_def)
  have l0: "map_of (own ?obj) ''0'' =
      Some (JObj (spread2 (existing_props (own (initial_players a)) ''0'') (own_props r0)))"
    using look [of "''0''"] by simp
  have l1: "map_of (own ?obj) ''1'' =
      Some (JObj (spread2 (existing_props (own (initial_players a)) ''1'') (own_props r1)))"
    using look [of "''1''"] by simp
  have lu: "\<forall>u. u \<noteq> ''0'' \<and> u \<noteq> ''1'' \<longrightarrow>
      map_of (own ?obj) u = map_of (own (initial_players a)) u"
    using look by simp
  from valid arr imp l0 l1 lu show ?thesis
    by (simp add: index_entries_2)
qed

text \<open>
  Witness of C10: two records in an array, imported into an aggregate that knows alice.
\<close>

theorem array_players_accepted_witness:
  \<open>get_players (JObj [(''players'', JArr [JObj [(''kills'', JNum 1)], JObj [(''deaths'', JNum 3)]])]) =
     Some (JArr [JObj [(''kills'', JNum 1)], JObj [(''deaths'', JNum 3)]]) \<and>
   truthy (JArr [JObj [(''kills'', JNum 1)], JObj [(''deaths'', JNum 3)]]) \<and>
   typeof_object (JArr [JObj [(''kills'', JNum 1)], JObj [(''deaths'', JNum 3)]]) \<and>
   \<not> invalid_schema
     (JObj [(''players'', JArr [JObj [(''kills'', JNum 1)], JObj [(''deaths'', JNum 3)]])]) \<and>
   import_content
     (\<lambda>text. Some (JObj [(''players'', JArr [JObj [(''kills'', JNum 1)], JObj [(''deaths'', JNum 3)]])]))
     ''t1'' Written ''{"players": [{"kills": 1}, {"deaths": 3}]}''
     (Stored (JObj [(''players'', JObj [(''alice'', JObj [(''kills'', JNum 5)])]),
                    (''updatedAt'', JStr ''t0'')])) =
     (Imported ''t1'' 3,
      Stored (JObj [(''players'',
                JObj [(''alice'', JObj [(''kills'', JNum 5)]),
                      (''0'', JObj [(''kills'', JNum 1)]),
                      (''1'', JObj [(''deaths'', JNum 3)])]),
              (''updatedAt'', JStr ''t1'')]))\<close>
proof -
  have eval: \<open>import_content
     (\<lambda>text. Some (JObj [(''players'', JArr [JObj [(''kills'', JNum 1)], JObj [(''deaths'', JNum 3)]])]))
     ''t1'' Written ''{"players": [{"kills": 1}, {"deaths": 3}]}''
     (Stored (JObj [(''players'', JObj [(''alice'', JObj [(''kills'', JNum 5)])]),
                    (''updatedAt'', JStr ''t0'')])) =
     (Imported ''t1'' 3,
      Stored (JObj [(''players'',
                JObj [(''alice'', JObj [(''kills'', JNum 5)]),
                      (''0'', JObj [(''kills'', JNum 1)]),
                      (''1'', JObj [(''deaths'', JNum 3)])]),
              (''updatedAt'', JStr ''t1'')]))\<close>
    by (simp add: import_content_def import_try_def invalid_schema_def readFile_parse_def
        writeFile_def merge_players_def initial_players_def merge_entry_def js_get_def
        js_set_def objproto_get_def objproto_names_def spread2_def merged_json_def
        index_entries_2)
  show ?thesis
    using eval
      array_players_accepted [where
        incoming = "JObj [(''players'', JArr [JObj [(''kills'', JNum 1)], JObj [(''deaths'', JNum 3)]])]"
        and p = "JArr [JObj [(''kills'', JNum 1)], JObj [(''deaths'', JNum 3)]]"
        and xs = "[JObj [(''kills'', JNum 1)], JObj [(''deaths'', JNum 3)]]"
        and ?r0.0 = "JObj [(''kills'', JNum 1)]" and ?r1.0 = "JObj [(''deaths'', JNum 3)]"
        and parse = "\<lambda>text. Some (JObj [(''players'',
              JArr [JObj [(''kills'', JNum 1)], JObj [(''deaths'', JNum 3)]])])"
        and a = "JObj [(''players'', JObj [(''alice'', JObj [(''kills'', JNum 5)])]),
                       (''updatedAt'', JStr ''t0'')]"
        and now = "''t1''"]
    by simp
qed

section \<open>The scheduler\<close>

lemma appendPingSample_returns: "fst (appendPingSample w sample st) = Inr ()"
  by (simp add: appendPingSample_def split: prod.splits sum.splits)

lemma tick_eq: "tick probe now w st = appendPingSample w (tick_sample probe now) st"
  by (cases probe)
     (auto simp: tick_def tick_try_def tick_sample_def appendPingSample_def
       split: prod.splits sum.splits)

lemma tick_returns: "fst (tick probe now w st) = Inr ()"
  by (simp add: tick_eq appendPingSample_returns)

lemma step_timer: "step ev s = Some s' \<Longrightarrow> timer s' = timer s"
  by (auto simp: step_def split: event.splits option.splits if_splits phase.splits sum.splits
      prod.splits)

lemma step_Fire: "timer s = Some ms \<Longrightarrow> step Fire s = Some (s\<lparr>ticks := ticks s @ [Probing]\<rparr>)"
  by (simp add: step_def)

text \<open>
  The two descriptions of a call of the timer callback agree: the events of one call,
  with nothing in between, leave the file and the console as \<open>tick\<close> says. The call ends
  at the read when the read or the push throws, at the write otherwise.
\<close>

lemma run_tick:
  assumes "timer s = Some ms"
  shows "run (Fire # Probe_done (length (ticks s)) probe now # Read_done (length (ticks s)) #
              (case appendPingSample_try Written (tick_sample probe now) (ping_history s) of
                 (Inl e, f') \<Rightarrow> []
               | (Inr u, f') \<Rightarrow> [Write_done (length (ticks s)) w])) s =
         Some (s\<lparr>ping_history := fst (snd (tick probe now w (ping_history s, console s))),
                 ticks := ticks s @ [Done],
                 console := snd (snd (tick probe now w (ping_history s, console s)))\<rparr>)"
proof (cases "readFile_parse (ping_history s)")
  case (Inl e)
  then show ?thesis using assms
    by (simp add: tick_eq appendPingSample_def appendPingSample_try_def step_def)
next
  case (Inr data)
  show ?thesis
  proof (cases "push_sample (tick_sample probe now) data")
    case (Inl e)
    then show ?thesis using assms Inr
      by (simp add: tick_eq appendPingSample_def appendPingSample_try_def step_def)
  next
    case push: (Inr data')
    then show ?thesis using assms Inr
      by (cases w)
         (simp_all add: tick_eq appendPingSample_def appendPingSample_try_def step_def
           writeFile_def)
  qed
qed

lemma started_every_second:
  "startSchedulerIfConfigured
     (Some \<lparr>host = ''localhost'', port = 25565, pingIntervalSec = Some 1\<rparr>)
     (boot empty_history) =
   \<lparr>ping_history = empty_history, timer = Some 1000, ticks = [],
     console = [Starting_scheduler 1]\<rparr>"
  by (simp add: startSchedulerIfConfigured_def boot_def)

text \<open>
  Claim C3 as stated fails: the sample of a tick whose probe failed has the two fields
  \<^verbatim>\<open>at\<close> and \<^verbatim>\<open>online\<close> only; it has no \<^verbatim>\<open>playersOnline\<close> and no
  \<^verbatim>\<open>playersMax\<close>, neither when it is handed to appendPingSample nor in the file.
\<close>

theorem failed_probe_sample_lacks_player_counts:
  "tick (Inl ProbeError) ''2026-01-01T00:00:00.000Z'' Written (empty_history, []) =
     (Inr (),
      Stored (JObj [(''samples'',
        JArr [JObj [(''at'', JStr ''2026-01-01T00:00:00.000Z''), (''online'', JBool False)]])]),
      []) \<and>
   map_of (own_props (tick_sample (Inl ProbeError) ''2026-01-01T00:00:00.000Z''))
     ''playersOnline'' = None \<and>
   map_of (own_props (tick_sample (Inl ProbeError) ''2026-01-01T00:00:00.000Z''))
     ''playersMax'' = None"
  by (simp add: tick_def tick_try_def offline_sample_def tick_sample_def appendPingSample_def
      appendPingSample_try_def readFile_parse_def push_sample_def writeFile_def empty_history_def)

text \<open>
  Claim C3, amended. For every tick whose probe fails, the sample handed to
  appendPingSample is \<^verbatim>\<open>{ at: now, online: false }\<close>, with no player counts; the
  callback returns normally whatever the append does; and no event disarms the timer,
  which starts a new call at every firing.
\<close>

theorem failed_probe_tick:
  "tick (Inl e) now w st =
     appendPingSample w (JObj [(''at'', JStr now), (''online'', JBool False)]) st \<and>
   fst (tick (Inl e) now w st) = Inr () \<and>
   (i < length (ticks s) \<and> ticks s ! i = Probing \<longrightarrow>
      step (Probe_done i (Inl e) now) s =
        Some (s\<lparr>ticks :=
          (ticks s)[i := Reading (JObj [(''at'', JStr now), (''online'', JBool False)])]\<rparr>)) \<and>
   (\<forall>ev s'. step ev s = Some s' \<longrightarrow> timer s' = timer s) \<and>
   (\<forall>ms. timer s = Some ms \<longrightarrow> step Fire s = Some (s\<lparr>ticks := ticks s @ [Probing]\<rparr>))"
proof -
  have "tick (Inl e) now w st =
     appendPingSample w (JObj [(''at'', JStr now), (''online'', JBool False)]) st"
    by (simp add: tick_def tick_try_def offline_sample_def)
  moreover have "i < length (ticks s) \<and> ticks s ! i = Probing \<longrightarrow>
      step (Probe_done i (Inl e) now) s =
        Some (s\<lparr>ticks :=
          (ticks s)[i := Reading (JObj [(''at'', JStr now), (''online'', JBool False)])]\<rparr>)"
    by (simp add: step_def tick_sample_def offline_sample_def)
  ultimately show ?thesis
    using tick_returns [of "Inl e" now w st] step_timer [of _ s] step_Fire [of s] by blast
qed

text \<open>
  Witness of C3: the only call in flight of a scheduler with a one second interval sees
  its probe fail; the timer is still set afterwards and its next firing starts a call.
\<close>

theorem failed_probe_tick_witness:
  "step (Probe_done 0 (Inl ProbeError) ''t'')
     \<lparr>ping_history = empty_history, timer = Some 1000, ticks = [Probing], console = []\<rparr> =
     Some \<lparr>ping_history = empty_history, timer = Some 1000,
            ticks = [Reading (JObj [(''at'', JStr ''t''), (''online'', JBool False)])],
            console = []\<rparr> \<and>
   step Fire
     \<lparr>ping_history = empty_history, timer = Some 1000,
       ticks = [Reading (JObj [(''at'', JStr ''t''), (''online'', JBool False)])],
       console = []\<rparr> =
     Some \<lparr>ping_history = empty_history, timer = Some 1000,
            ticks = [Reading (JObj [(''at'', JStr ''t''), (''online'', JBool False)]), Probing],
            console = []\<rparr>"
  using failed_probe_tick [of ProbeError "''t''" Written "(empty_history, [])" 0
      "\<lparr>ping_history = empty_history, timer = Some 1000, ticks = [Probing], console = []\<rparr>"]
    failed_probe_tick [of ProbeError "''t''" Written "(empty_history, [])" 0
      "\<lparr>ping_history = empty_history, timer = Some 1000,
        ticks = [Reading (JObj [(''at'', JStr ''t''), (''online'', JBool False)])],
        console = []\<rparr>"]
  by simp

text \<open>
  Claim C4 as stated fails: with a one second interval, the timer fires a second time
  while the probe of the first call is still awaited, and both calls are in flight.
\<close>

theorem two_ticks_in_flight:
  "map_option ticks
     (run [Fire, Fire]
        (startSchedulerIfConfigured
           (Some \<lparr>host = ''localhost'', port = 25565, pingIntervalSec = Some 1\<rparr>)
           (boot empty_history))) =
     Some [Probing, Probing] \<and>
   map_option in_flight
     (run [Fire, Fire]
        (startSchedulerIfConfigured
           (Some \<lparr>host = ''localhost'', port = 25565, pingIntervalSec = Some 1\<rparr>)
           (boot empty_history))) =
     Some 2"
  by (simp add: started_every_second step_def in_flight_def)

lemma filter_list_update:
  "i < length xs \<Longrightarrow> P (xs ! i) \<Longrightarrow>
   length (filter P (xs[i := y])) =
     (if P y then length (filter P xs) else length (filter P xs) - 1)"
proof (induction xs arbitrary: i)
  case Nil
  then show ?case by simp
next
  case (Cons x xs)
  show ?case
  proof (cases i)
    case 0
    then show ?thesis using Cons.prems by simp
  next
    case (Suc j)
    then have "length (filter P (xs[j := y])) =
        (if P y then length (filter P xs) else length (filter P xs) - 1)"
      using Cons.prems by (intro Cons.IH) simp_all
    moreover have "0 < length (filter P xs)"
      using Cons.prems Suc by (auto simp: filter_empty_conv intro: nth_mem)
    ultimately show ?thesis using Suc by simp
  qed
qed

lemma in_flight_update:
  "i < length (ticks s) \<Longrightarrow> ticks s ! i \<noteq> Done \<Longrightarrow>
   in_flight (s\<lparr>ticks := (ticks s)[i := p]\<rparr>) \<le> in_flight s"
  by (simp add: in_flight_def filter_list_update)

lemma step_in_flight:
  assumes "step ev s = Some s'" "ev \<noteq> Fire"
  shows "in_flight s' \<le> in_flight s"
proof (cases ev)
  case Fire
  then show ?thesis using assms by simp
next
  case (Probe_done i probe now)
  then show ?thesis using assms in_flight_update [of i s]
    by (auto simp: step_def split: if_splits)
next
  case (Read_done i)
  then show ?thesis using assms in_flight_update [of i s]
    by (auto simp: step_def in_flight_def filter_list_update
        split: if_splits phase.splits sum.splits)
next
  case (Write_done i w)
  then show ?thesis using assms in_flight_update [of i s]
    by (auto simp: step_def in_flight_def filter_list_update
        split: if_splits phase.splits sum.splits prod.splits)
qed

lemma in_flight_Fire: "in_flight (s\<lparr>ticks := ticks s @ [Probing]\<rparr>) = Suc (in_flight s)"
  by (simp add: in_flight_def)

lemma run_fires_when_idle:
  "fires_when_idle es s \<Longrightarrow> in_flight s \<le> 1 \<Longrightarrow> run es s = Some s' \<Longrightarrow> in_flight s' \<le> 1"
proof (induction es arbitrary: s)
  case Nil
  then show ?case by simp
next
  case (Cons ev es)
  from Cons.prems(3) obtain s1 where s1: "step ev s = Some s1" and r: "run es s1 = Some s'"
    by (auto split: option.splits)
  have idle: "fires_when_idle es s1" using Cons.prems(1) s1 by simp
  have "in_flight s1 \<le> 1"
  proof (cases "ev = Fire")
    case True
    then have "in_flight s = 0" using Cons.prems(1) by simp
    moreover have "s1 = s\<lparr>ticks := ticks s @ [Probing]\<rparr>"
      using s1 True by (auto simp: step_def split: option.splits)
    ultimately show ?thesis by (simp add: in_flight_Fire)
  next
    case False
    then show ?thesis using step_in_flight [OF s1] Cons.prems(2) by simp
  qed
  then show ?case using Cons.IH [OF idle _ r] by simp
qed

text \<open>
  Claim C4, amended. Every firing of the timer starts a new call of the callback, one
  more in flight than before, whether or not earlier calls are still in flight: no
  firing is skipped or deferred. At most one call is in flight along every run in which
  the timer never fires while a call is in flight, that is when every call finishes
  within the interval.
\<close>

theorem every_firing_starts_a_tick:
  "(\<forall>ms. timer s = Some ms \<longrightarrow>
      step Fire s = Some (s\<lparr>ticks := ticks s @ [Probing]\<rparr>) \<and>
      in_flight (s\<lparr>ticks := ticks s @ [Probing]\<rparr>) = Suc (in_flight s)) \<and>
   (\<forall>es s'. fires_when_idle es s \<and> in_flight s \<le> 1 \<and> run es s = Some s' \<longrightarrow>
      in_flight s' \<le> 1)"
  using step_Fire [of s] in_flight_Fire [of s] run_fires_when_idle [of _ s] by blast

text \<open>
  Witness of C4: one call runs to its end (probe, read, write) before the timer fires
  again; one call is in flight after the second firing.
\<close>

theorem every_firing_starts_a_tick_witness:
  "step Fire \<lparr>ping_history = empty_history, timer = Some 1000, ticks = [], console = []\<rparr> =
     Some \<lparr>ping_history = empty_history, timer = Some 1000, ticks = [Probing], console = []\<rparr> \<and>
   fires_when_idle
     [Fire, Probe_done 0 (Inl ProbeError) ''t'', Read_done 0, Write_done 0 Written, Fire]
     \<lparr>ping_history = empty_history, timer = Some 1000, ticks = [], console = []\<rparr> \<and>
   run [Fire, Probe_done 0 (Inl ProbeError) ''t'', Read_done 0, Write_done 0 Written, Fire]
     \<lparr>ping_history = empty_history, timer = Some 1000, ticks = [], console = []\<rparr> =
     Some \<lparr>ping_history =
              Stored (JObj [(''samples'',
                JArr [JObj [(''at'', JStr ''t''), (''online'', JBool False)]])]),
            timer = Some 1000, ticks = [Done, Probing], console = []\<rparr> \<and>
   in_flight
     \<lparr>ping_history =
        Stored (JObj [(''samples'', JArr [JObj [(''at'', JStr ''t''), (''online'', JBool False)]])]),
      timer = Some 1000, ticks = [Done, Probing], console = []\<rparr> \<le> 1"
proof -
  let ?s = "\<lparr>ping_history = empty_history, timer = Some 1000, ticks = [], console = []\<rparr>"
  let ?es = "[Fire, Probe_done 0 (Inl ProbeError) ''t'', Read_done 0, Write_done 0 Written, Fire]"
  have r: "run ?es ?s =
     Some \<lparr>ping_history =
              Stored (JObj [(''samples'',
                JArr [JObj [(''at'', JStr ''t''), (''online'', JBool False)]])]),
            timer = Some 1000, ticks = [Done, Probing], console = []\<rparr>"
    by (simp add: step_def tick_sample_def offline_sample_def empty_history_def
        readFile_parse_def push_sample_def writeFile_def)
  have idle: "fires_when_idle ?es ?s"
    by (simp add: step_def tick_sample_def offline_sample_def empty_history_def
        readFile_parse_def push_sample_def writeFile_def in_flight_def)
  have f: "in_flight ?s \<le> 1" by (simp add: in_flight_def)
  show ?thesis
    using every_firing_starts_a_tick [of ?s] r idle f by (simp add: in_flight_def)
qed

text \<open>
  Claim C6 as stated fails: \<^verbatim>\<open>fsp.writeFile\<close> truncates ping-history.json when it opens
  it, so a write that fails after the open leaves a file that no longer holds the samples
  persisted before; appendPingSample only logs the error.
\<close>

theorem failed_write_may_destroy_history:
  "appendPingSample Failed_truncated
     (JObj [(''at'', JStr ''2026-01-01T00:01:00.000Z''), (''online'', JBool False)])
     (Stored (JObj [(''samples'',
        JArr [JObj [(''at'', JStr ''2026-01-01T00:00:00.000Z''), (''online'', JBool False)]])]),
      []) =
     (Inr (), Garbage, [Failed_to_append WriteFailure])"
  by (simp add: appendPingSample_def appendPingSample_try_def readFile_parse_def push_sample_def
      writeFile_def)

text \<open>
  Claim C6, amended. For every append whose write fails, appendPingSample logs the error
  and returns normally, so the failure reaches neither the tick nor the timer, which
  stays set; the code neither protects nor restores the file, which is left as the failed
  write leaves it: with its prior content when the write failed before touching the file,
  without it when the write failed after truncating it.
\<close>

theorem append_write_failure:
  "(readFile_parse f = Inr data \<and> push_sample sample data = Inr data' \<and> w \<noteq> Written \<longrightarrow>
      appendPingSample w sample (f, log) =
        (Inr (), (if w = Failed_untouched then f else Garbage),
         log @ [Failed_to_append WriteFailure])) \<and>
   fst (tick probe now w st) = Inr () \<and>
   (i < length (ticks s) \<and> ticks s ! i = Writing data' \<and> w \<noteq> Written \<longrightarrow>
      step (Write_done i w) s =
        Some (s\<lparr>ping_history := (if w = Failed_untouched then ping_history s else Garbage),
                ticks := (ticks s)[i := Done],
                console := console s @ [Failed_to_append WriteFailure]\<rparr>)) \<and>
   (\<forall>ev s'. step ev s = Some s' \<longrightarrow> timer s' = timer s)"
proof -
  have "readFile_parse f = Inr data \<and> push_sample sample data = Inr data' \<and> w \<noteq> Written \<longrightarrow>
      appendPingSample w sample (f, log) =
        (Inr (), (if w = Failed_untouched then f else Garbage),
         log @ [Failed_to_append WriteFailure])"
    by (cases w) (simp_all add: appendPingSample_def appendPingSample_try_def writeFile_def)
  moreover have "i < length (ticks s) \<and> ticks s ! i = Writing data' \<and> w \<noteq> Written \<longrightarrow>
      step (Write_done i w) s =
        Some (s\<lparr>ping_history := (if w = Failed_untouched then ping_history s else Garbage),
                ticks := (ticks s)[i := Done],
                console := console s @ [Failed_to_append WriteFailure]\<rparr>)"
    by (cases w) (simp_all add: step_def writeFile_def)
  ultimately show ?thesis
    using tick_returns [of probe now w st] step_timer [of _ s] by blast
qed

text \<open>
  Witness of C6: a write that fails before it touches the file, in appendPingSample and
  as the completion of the write of the only call in flight.
\<close>

theorem append_write_failure_witness:
  "readFile_parse empty_history = Inr (JObj [(''samples'', JArr [])]) \<and>
   push_sample (JObj [(''at'', JStr ''t''), (''online'', JBool False)])
     (JObj [(''samples'', JArr [])]) =
     Inr (JObj [(''samples'', JArr [JObj [(''at'', JStr ''t''), (''online'', JBool False)]])]) \<and>
   appendPingSample Failed_untouched (JObj [(''at'', JStr ''t''), (''online'', JBool False)])
     (empty_history, []) =
     (Inr (), empty_history, [Failed_to_append WriteFailure]) \<and>
   step (Write_done 0 Failed_untouched)
     \<lparr>ping_history = empty_history, timer = Some 1000,
       ticks = [Writing (JObj [(''samples'',
         JArr [JObj [(''at'', JStr ''t''), (''online'', JBool False)]])])],
       console = []\<rparr> =
     Some \<lparr>ping_history = empty_history, timer = Some 1000, ticks = [Done],
            console = [Failed_to_append WriteFailure]\<rparr>"
proof -
  have rd: "readFile_parse empty_history = Inr (JObj [(''samples'', JArr [])])"
    by (simp add: readFile_parse_def empty_history_def)
  have ps: "push_sample (JObj [(''at'', JStr ''t''), (''online'', JBool False)])
     (JObj [(''samples'', JArr [])]) =
     Inr (JObj [(''samples'', JArr [JObj [(''at'', JStr ''t''), (''online'', JBool False)]])])"
    by (simp add: push_sample_def)
  show ?thesis
    using rd ps
      append_write_failure [of empty_history "JObj [(''samples'', JArr [])]"
        "JObj [(''at'', JStr ''t''), (''online'', JBool False)]"
        "JObj [(''samples'', JArr [JObj [(''at'', JStr ''t''), (''online'', JBool False)]])]"
        Failed_untouched "[]" "Inl ProbeError" "''t''" "(empty_history, [])" 0
        "\<lparr>ping_history = empty_history, timer = Some 1000,
          ticks = [Writing (JObj [(''samples'',
            JArr [JObj [(''at'', JStr ''t''), (''online'', JBool False)]])])],
          console = []\<rparr>"]
    by simp
qed

lemma step_boot: "step ev (boot f) = None"
  by (cases ev) (simp_all add: step_def boot_def)

lemma run_boot: "run es (boot f) = (if es = [] then Some (boot f) else None)"
  by (cases es) (simp_all add: step_boot)

text \<open>
  Claim C8. If \<^verbatim>\<open>pingIntervalSec\<close> in config.json is 0, negative or null when the
  scheduler is started, startSchedulerIfConfigured returns without setting a timer and
  without logging anything (no warning, no error); from then on no event of the
  scheduler can happen, so no call of the callback ever starts and ping-history.json
  stays as it was.
\<close>

theorem scheduler_disabled:
  assumes "case pingIntervalSec cfg of None \<Rightarrow> True | Some n \<Rightarrow> n \<le> 0"
  shows "startSchedulerIfConfigured (Some cfg) (boot f) = boot f \<and>
         timer (boot f) = None \<and> console (boot f) = [] \<and>
         (\<forall>es s'. run es (startSchedulerIfConfigured (Some cfg) (boot f)) = Some s' \<longrightarrow>
            es = [] \<and> s' = boot f \<and> ping_history s' = f)"
proof -
  have start: "startSchedulerIfConfigured (Some cfg) (boot f) = boot f"
    using assms by (auto simp: startSchedulerIfConfigured_def split: option.splits)
  have "timer (boot f) = None" "console (boot f) = []" "ping_history (boot f) = f"
    by (simp_all add: boot_def)
  then show ?thesis
    unfolding start by (auto simp: run_boot split: if_splits)
qed

text \<open>Witness of C8: the default configuration, \<^verbatim>\<open>pingIntervalSec: 0\<close>.\<close>

theorem scheduler_disabled_witness:
  "startSchedulerIfConfigured
     (Some \<lparr>host = ''localhost'', port = 25565, pingIntervalSec = Some 0\<rparr>) (boot empty_history) =
     boot empty_history \<and>
   run [Fire]
     (startSchedulerIfConfigured
        (Some \<lparr>host = ''localhost'', port = 25565, pingIntervalSec = Some 0\<rparr>)
        (boot empty_history)) = None \<and>
   run []
     (startSchedulerIfConfigured
        (Some \<lparr>host = ''localhost'', port = 25565, pingIntervalSec = Some 0\<rparr>)
        (boot empty_history)) = Some (boot empty_history)"
proof -
  have h: "case pingIntervalSec \<lparr>host = ''localhost'', port = 25565, pingIntervalSec = Some 0\<rparr>
      of None \<Rightarrow> True | Some n \<Rightarrow> n \<le> 0"
    by simp
  show ?thesis
    using scheduler_disabled [OF h, of empty_history]
    by (simp add: step_def boot_def)
qed

end
